theory Spec2Isabelle
  imports Main
begin

section \<open>Strings\<close>

text \<open>
  The script works on Python \<open>str\<close> values. They are modelled as HOL strings, a
  \<open>char\<close> standing for the code point of the same number, so the model covers the
  code points below 256. The three character classes the script depends on are
  written out for that range:
  \<^item> \<open>is_space\<close>: what \<open>str.strip()\<close> and \<open>int()\<close> remove (\<open>str.isspace\<close>);
  \<^item> \<open>is_digit_char\<close>: what \<open>str.isdigit()\<close> accepts, which besides \<open>0\<close>-\<open>9\<close>
    holds the superscripts two, three and one (178, 179, 185);
  \<^item> \<open>is_decimal\<close>: what the regular expression class \<open>\d\<close> and \<open>int()\<close> accept.
\<close>

definition is_space :: "char \<Rightarrow> bool" where
  "is_space c =
     (let n = (of_char c :: nat)
      in (9 \<le> n \<and> n \<le> 13) \<or> (28 \<le> n \<and> n \<le> 32) \<or> n = 133 \<or> n = 160)"

definition is_decimal :: "char \<Rightarrow> bool" where
  "is_decimal c = (let n = (of_char c :: nat) in 48 \<le> n \<and> n \<le> 57)"

definition is_digit_char :: "char \<Rightarrow> bool" where
  "is_digit_char c =
     (let n = (of_char c :: nat)
      in (48 \<le> n \<and> n \<le> 57) \<or> n = 178 \<or> n = 179 \<or> n = 185)"

definition lstrip :: "string \<Rightarrow> string" where
  "lstrip s = dropWhile is_space s"

definition rstrip :: "string \<Rightarrow> string" where
  "rstrip s = rev (dropWhile is_space (rev s))"

text \<open>\<open>s.strip()\<close>\<close>

definition strip :: "string \<Rightarrow> string" where
  "strip s = lstrip (rstrip s)"

text \<open>\<open>s.isdigit()\<close>: false on the empty string.\<close>

definition isdigit :: "string \<Rightarrow> bool" where
  "isdigit s = (if s = [] then False else list_all is_digit_char s)"

section \<open>Errors\<close>

datatype error =
    ValueError
  | KeyError
  | RequestError
  | XMLSyntaxError

section \<open>Identifier resolution\<close>

text \<open>
  The pattern \<open>id(\d+)\<close> matched at the start of a string: \<open>id\<close>, then the
  longest run of decimal digits, which must not be empty. The result is group 1.
\<close>

definition match_id :: "string \<Rightarrow> string option" where
  "match_id s =
     (case s of
        i # d # rest \<Rightarrow>
          if i = CHR ''i'' \<and> d = CHR ''d'' \<and> takeWhile is_decimal rest \<noteq> []
          then Some (takeWhile is_decimal rest) else None
      | _ \<Rightarrow> None)"

text \<open>
  \<open>re.search(r"id(\d+)", s)\<close> tries the pattern at every position from the left and
  stops at the first match.
\<close>

fun re_search_id :: "string \<Rightarrow> string option" where
  "re_search_id [] = None"
| "re_search_id (c # cs) =
     (case match_id (c # cs) of
        Some g \<Rightarrow> Some g
      | None \<Rightarrow> re_search_id cs)"

definition extract_app_id :: "string \<Rightarrow> error + string" where
  "extract_app_id url_or_id =
     (let s = strip url_or_id
      in if isdigit s then Inr s
         else (case re_search_id s of
                 None \<Rightarrow> Inl ValueError
               | Some g \<Rightarrow> Inr g))"

section \<open>The feed document\<close>

text \<open>
  \<open>etree.fromstring\<close> turns the response body into an element tree. An element has
  a qualified tag (namespace and local name), a text that may be missing (\<open>None\<close> for
  an element without character data) and its child elements in document order.
\<close>

type_synonym qname = "string \<times> string"

datatype element = Element (tag: qname) (elem_text: "string option") (children: "element list")

definition atom :: "string \<Rightarrow> qname" where
  "atom name = (''http://www.w3.org/2005/Atom'', name)"

definition im :: "string \<Rightarrow> qname" where
  "im name = (''http://itunes.apple.com/rss'', name)"

text \<open>
  \<open>elem.findall(path)\<close> for a path of child steps \<open>a/b/...\<close>: the elements reached by
  following the steps from \<open>elem\<close>, in document order.
\<close>

fun findall :: "qname list \<Rightarrow> element \<Rightarrow> element list" where
  "findall [] elem = [elem]"
| "findall (q # qs) elem =
     concat (map (findall qs) (filter (\<lambda>c. tag c = q) (children elem)))"

text \<open>
  \<open>elem.findtext(path)\<close>: \<open>None\<close> when no element matches; otherwise the text of
  the first match, and the empty string when that element has no text.
\<close>

definition findtext :: "qname list \<Rightarrow> element \<Rightarrow> string option" where
  "findtext path elem =
     (case findall path elem of
        [] \<Rightarrow> None
      | el # _ \<Rightarrow> Some (case elem_text el of None \<Rightarrow> [] | Some t \<Rightarrow> t))"

text \<open>
  Python's \<open>a or b\<close> on optional strings: \<open>a\<close> when it is truthy (present and not
  empty), else \<open>b\<close>. \<open>or_empty\<close> is \<open>a or ""\<close>.
\<close>

definition truthy :: "string option \<Rightarrow> bool" where
  "truthy a = (case a of None \<Rightarrow> False | Some t \<Rightarrow> t \<noteq> [])"

definition py_or :: "string option \<Rightarrow> string option \<Rightarrow> string option" where
  "py_or a b = (if truthy a then a else b)"

definition or_empty :: "string option \<Rightarrow> string" where
  "or_empty a = (case a of None \<Rightarrow> [] | Some t \<Rightarrow> t)"

section \<open>Integer conversion\<close>

text \<open>
  \<open>int(s)\<close> on a string. The conversion drops the whitespace around the text itself,
  with a class of its own: the characters 9 to 13, the blank, and 133 and 160, but not
  28 to 31, which \<open>str.strip\<close> removes and \<open>int\<close> rejects. An optional sign
  follows, then decimal digits, where single underscores may separate digits.
  Anything else raises \<open>ValueError\<close>, here \<open>None\<close>; so does a text with more decimal
  digits than the interpreter's limit for integer string conversion, 4300 by default
  (leading zeros count, the sign and the underscores do not). The flag of
  \<open>digits_value\<close> says that the previous character was a digit.
\<close>

definition is_int_space :: "char \<Rightarrow> bool" where
  "is_int_space c =
     (let n = (of_char c :: nat)
      in (9 \<le> n \<and> n \<le> 13) \<or> n = 32 \<or> n = 133 \<or> n = 160)"

definition int_strip :: "string \<Rightarrow> string" where
  "int_strip s = dropWhile is_int_space (rev (dropWhile is_int_space (rev s)))"

definition int_max_str_digits :: nat where
  "int_max_str_digits = 4300"

definition digit_val :: "char \<Rightarrow> int" where
  "digit_val c = int (of_char c) - 48"

fun digits_value :: "bool \<Rightarrow> int \<Rightarrow> string \<Rightarrow> int option" where
  "digits_value prev n [] = (if prev then Some n else None)"
| "digits_value prev n (c # cs) =
     (if is_decimal c then digits_value True (10 * n + digit_val c) cs
      else if c = CHR ''_'' \<and> prev then digits_value False n cs
      else None)"

text \<open>The digits after the sign: the limit on their number, then their value.\<close>

definition digits_limited :: "string \<Rightarrow> int option" where
  "digits_limited body =
     (if int_max_str_digits < length (filter is_decimal body) then None
      else digits_value False 0 body)"

definition py_int :: "string \<Rightarrow> int option" where
  "py_int s =
     (case int_strip s of
        [] \<Rightarrow> None
      | c # cs \<Rightarrow>
          if c = CHR ''-'' then map_option uminus (digits_limited cs)
          else if c = CHR ''+'' then digits_limited cs
          else digits_limited (c # cs))"

text \<open>
  The integer literals in words, for the statements about the conversion: a group is
  a run of decimal digits that is not empty, \<open>underscored\<close> writes groups each after
  an underscore, and \<open>dec_value\<close> is the number that a run of digits denotes.
\<close>

definition digit_group :: "string \<Rightarrow> bool" where
  "digit_group g = (if g = [] then False else list_all is_decimal g)"

definition underscored :: "string list \<Rightarrow> string" where
  "underscored groups = concat (map (\<lambda>h. CHR ''_'' # h) groups)"

definition dec_value :: "string \<Rightarrow> int" where
  "dec_value ds = foldl (\<lambda>n c. 10 * n + digit_val c) 0 ds"

section \<open>Parsing a feed page\<close>

record review =
  username :: string
  published_at :: string
  rating :: int
  title :: string
  content :: string

text \<open>The dictionary built for one entry, once its rating has been converted.\<close>

definition review_of :: "element \<Rightarrow> int \<Rightarrow> review" where
  "review_of entry r =
     \<lparr>username = strip (or_empty (findtext [atom ''author'', atom ''name''] entry)),
      published_at =
        strip (or_empty (py_or (findtext [atom ''updated''] entry)
                               (findtext [atom ''published''] entry))),
      rating = r,
      title = strip (or_empty (findtext [atom ''title''] entry)),
      content = strip (or_empty (findtext [atom ''content''] entry))\<rparr>"

text \<open>
  The loop over the entries, with \<open>rows\<close> the list built so far. An entry without
  \<open>im:rating\<close> is skipped; a rating that \<open>int\<close> rejects raises.
\<close>

fun parse_entries :: "element list \<Rightarrow> review list \<Rightarrow> error + review list" where
  "parse_entries [] rows = Inr rows"
| "parse_entries (entry # entries) rows =
     (case findtext [im ''rating''] entry of
        None \<Rightarrow> parse_entries entries rows
      | Some rating_text \<Rightarrow>
          (case py_int (strip rating_text) of
             None \<Rightarrow> Inl ValueError
           | Some r \<Rightarrow> parse_entries entries (rows @ [review_of entry r])))"

text \<open>
  \<open>parse_reviews\<close>, with the XML parser \<open>fromstring\<close> as a parameter: it returns the
  root element or raises on a malformed document.
\<close>

definition parse_reviews ::
  "(string \<Rightarrow> error + element) \<Rightarrow> string \<Rightarrow> error + review list" where
  "parse_reviews fromstring xml_bytes =
     (case fromstring xml_bytes of
        Inl e \<Rightarrow> Inl e
      | Inr root \<Rightarrow> parse_entries (findall [atom ''entry''] root) [])"

text \<open>
  Two notions for the statements about the parser: an entry is rating-bearing when it
  has an \<open>im:rating\<close> child, and \<open>rating_value\<close> is what \<open>int(rating.strip())\<close>
  gives for it (\<open>None\<close> when the entry has no rating or the conversion raises).
\<close>

definition rating_bearing :: "element \<Rightarrow> bool" where
  "rating_bearing entry = (findtext [im ''rating''] entry \<noteq> None)"

definition rating_value :: "element \<Rightarrow> int option" where
  "rating_value entry =
     (case findtext [im ''rating''] entry of
        None \<Rightarrow> None
      | Some rating_text \<Rightarrow> py_int (strip rating_text))"

text \<open>A string has no whitespace at either end.\<close>

definition trimmed :: "string \<Rightarrow> bool" where
  "trimmed s = (if s = [] then True else \<not> is_space (hd s) \<and> \<not> is_space (last s))"

section \<open>Fetching a page\<close>

text \<open>The decimal text of a page number, as the f-string writes it.\<close>

definition digit_char :: "nat \<Rightarrow> char" where
  "digit_char d = ''0123456789'' ! d"

fun str_nat :: "nat \<Rightarrow> string" where
  "str_nat n =
     (if n < 10 then [digit_char n]
      else str_nat (n div 10) @ [digit_char (n mod 10)])"

definition str_int :: "int \<Rightarrow> string" where
  "str_int i = (if i < 0 then CHR ''-'' # str_nat (nat (- i)) else str_nat (nat i))"

text \<open>
  \<open>fetch_reviews_xml\<close>, with the network as a parameter: \<open>http_get url\<close> is the body
  of the response, or the error that \<open>requests.get\<close> or \<open>raise_for_status\<close> raises.
\<close>

definition fetch_reviews_xml ::
  "(string \<Rightarrow> error + string) \<Rightarrow> string \<Rightarrow> string \<Rightarrow> int \<Rightarrow> error + string" where
  "fetch_reviews_xml http_get app_id country page =
     http_get (''https://itunes.apple.com/'' @ country @ ''/rss/customerreviews/''
               @ ''page='' @ str_int page @ ''/id='' @ app_id @ ''/sortby=mostrecent/xml'')"

section \<open>The run\<close>

text \<open>The configuration block, and what the run reads from outside the script.\<close>

record config =
  APP_URL :: string
  COUNTRY :: string
  MAX_PAGES :: int
  OUTPUT_FILE :: string

record env =
  http_get :: "string \<Rightarrow> error + string"
  fromstring :: "string \<Rightarrow> error + element"
  parse_datetime :: "string \<Rightarrow> int option"

text \<open>\<open>range(a, b)\<close>\<close>

definition py_range :: "int \<Rightarrow> int \<Rightarrow> int list" where
  "py_range a b = [a..b - 1]"

text \<open>
  The page loop. Its state is the accumulator \<open>all_reviews\<close>, together with the list
  of the page numbers requested so far, which the script does not keep and which is
  recorded here to say what a run fetches. The loop ends by \<open>break\<close> on an empty page
  (\<open>Exhausted\<close>), by running out of page numbers (\<open>Ceiling\<close>), or by an exception of
  the fetch or the parse (\<open>Aborted\<close>). The pause between pages is not modelled.
\<close>

datatype outcome = Exhausted | Ceiling | Aborted error

record run_state =
  fetched :: "int list"
  all_reviews :: "review list"

fun page_loop ::
  "env \<Rightarrow> string \<Rightarrow> string \<Rightarrow> int list \<Rightarrow> run_state \<Rightarrow> outcome \<times> run_state" where
  "page_loop w app_id country [] st = (Ceiling, st)"
| "page_loop w app_id country (page # pages) st =
     (let st1 = st\<lparr>fetched := fetched st @ [page]\<rparr>
      in case fetch_reviews_xml (http_get w) app_id country page of
           Inl e \<Rightarrow> (Aborted e, st1)
         | Inr xml_data \<Rightarrow>
             (case parse_reviews (fromstring w) xml_data of
                Inl e \<Rightarrow> (Aborted e, st1)
              | Inr reviews \<Rightarrow>
                  if reviews = [] then (Exhausted, st1)
                  else page_loop w app_id country pages
                         (st1\<lparr>all_reviews := all_reviews st1 @ reviews\<rparr>)))"

text \<open>The loop as \<open>main\<close> runs it: an empty accumulator and the pages \<open>1\<close> to \<open>MAX_PAGES\<close>.\<close>

definition run_pages :: "env \<Rightarrow> string \<Rightarrow> string \<Rightarrow> int \<Rightarrow> outcome \<times> run_state" where
  "run_pages w app_id country max_pages =
     page_loop w app_id country (py_range 1 (max_pages + 1))
       \<lparr>fetched = [], all_reviews = []\<rparr>"

text \<open>
  For the statements about the loop: what a page yields, that is the outcome of the
  fetch followed by the parse, and the records it contributes.
\<close>

definition page_result :: "env \<Rightarrow> string \<Rightarrow> string \<Rightarrow> int \<Rightarrow> error + review list" where
  "page_result w app_id country page =
     (case fetch_reviews_xml (http_get w) app_id country page of
        Inl e \<Rightarrow> Inl e
      | Inr xml_data \<Rightarrow> parse_reviews (fromstring w) xml_data)"

definition page_records :: "env \<Rightarrow> string \<Rightarrow> string \<Rightarrow> int \<Rightarrow> review list" where
  "page_records w app_id country page =
     (case page_result w app_id country page of Inl e \<Rightarrow> [] | Inr reviews \<Rightarrow> reviews)"

definition yields_reviews :: "env \<Rightarrow> string \<Rightarrow> string \<Rightarrow> int \<Rightarrow> bool" where
  "yields_reviews w app_id country page =
     (case page_result w app_id country page of Inl e \<Rightarrow> False | Inr reviews \<Rightarrow> reviews \<noteq> [])"

section \<open>The table\<close>

text \<open>
  A cell of a data frame: a string, an integer, a timestamp (nanoseconds since the
  epoch, in UTC), the missing timestamp \<open>NaT\<close>, or the missing value \<open>NaN\<close>.
  A frame has its column labels and its rows, each row with its index label.
\<close>

datatype cell = StrCell string | IntCell int | TsCell int | NaT | NaN

record dataframe =
  columns :: "string list"
  body :: "(nat \<times> cell list) list"

text \<open>The items of a row dictionary, in insertion order.\<close>

definition as_dict :: "review \<Rightarrow> (string \<times> cell) list" where
  "as_dict r =
     [(''username'', StrCell (username r)),
      (''published_at'', StrCell (published_at r)),
      (''rating'', IntCell (rating r)),
      (''title'', StrCell (title r)),
      (''content'', StrCell (content r))]"

text \<open>
  \<open>pd.DataFrame(dicts)\<close>: the columns are the keys of the dictionaries in the order of
  their first appearance, so a frame built from no dictionary has no column. The rows
  are numbered from 0, and a key that a dictionary lacks gives \<open>NaN\<close>.
\<close>

definition union_keys :: "(string \<times> cell) list list \<Rightarrow> string list" where
  "union_keys ds = foldl (\<lambda>cols d. cols @ filter (\<lambda>k. k \<notin> set cols) (map fst d)) [] ds"

definition DataFrame :: "(string \<times> cell) list list \<Rightarrow> dataframe" where
  "DataFrame ds =
     \<lparr>columns = union_keys ds,
      body = zip [0..<length ds]
               (map (\<lambda>d. map (\<lambda>k. case map_of d k of None \<Rightarrow> NaN | Some v \<Rightarrow> v)
                              (union_keys ds)) ds)\<rparr>"

text \<open>
  \<open>df.drop_duplicates()\<close>: a row is dropped when an earlier row has the same cells
  (\<open>keep='first'\<close>); the rows kept stay in order and keep their index labels.
  \<open>seen\<close> holds the rows met so far.
\<close>

fun drop_dups :: "cell list list \<Rightarrow> (nat \<times> cell list) list \<Rightarrow> (nat \<times> cell list) list" where
  "drop_dups seen [] = []"
| "drop_dups seen (r # rs) =
     (if snd r \<in> set seen then drop_dups seen rs
      else r # drop_dups (snd r # seen) rs)"

definition drop_duplicates :: "dataframe \<Rightarrow> dataframe" where
  "drop_duplicates df = df\<lparr>body := drop_dups [] (body df)\<rparr>"

text \<open>The position of a label among the columns.\<close>

fun get_loc :: "string list \<Rightarrow> string \<Rightarrow> nat option" where
  "get_loc [] key = None"
| "get_loc (c # cs) key = (if c = key then Some 0 else map_option Suc (get_loc cs key))"

text \<open>\<open>df[key]\<close> raises \<open>KeyError\<close> when no column has the label.\<close>

definition getitem :: "dataframe \<Rightarrow> string \<Rightarrow> error + cell list" where
  "getitem df key =
     (case get_loc (columns df) key of
        None \<Rightarrow> Inl KeyError
      | Some j \<Rightarrow> Inr (map (\<lambda>r. snd r ! j) (body df)))"

text \<open>\<open>df[key] = values\<close> replaces the column, or appends it when the label is new.\<close>

definition setitem :: "dataframe \<Rightarrow> string \<Rightarrow> cell list \<Rightarrow> dataframe" where
  "setitem df key vals =
     (case get_loc (columns df) key of
        None \<Rightarrow>
          \<lparr>columns = columns df @ [key],
           body = map (\<lambda>(r, v). (fst r, snd r @ [v])) (zip (body df) vals)\<rparr>
      | Some j \<Rightarrow>
          \<lparr>columns = columns df,
           body = map (\<lambda>(r, v). (fst r, (snd r)[j := v])) (zip (body df) vals)\<rparr>)"

text \<open>
  \<open>pd.to_datetime(col, errors="coerce", utc=True)\<close> on one cell, with the date parser
  as a parameter: a string that does not parse becomes \<open>NaT\<close>. The following
  \<open>.dt.tz_convert(None)\<close> drops the zone mark of a UTC value and leaves its
  nanoseconds as they are.
\<close>

definition to_datetime :: "(string \<Rightarrow> int option) \<Rightarrow> cell \<Rightarrow> cell" where
  "to_datetime parse c =
     (case c of
        StrCell s \<Rightarrow> (case parse s of None \<Rightarrow> NaT | Some t \<Rightarrow> TsCell t)
      | IntCell n \<Rightarrow> TsCell n
      | TsCell t \<Rightarrow> TsCell t
      | NaT \<Rightarrow> NaT
      | NaN \<Rightarrow> NaT)"

text \<open>
  \<open>df.to_excel(path, index=...)\<close>: one sheet, a header row with the column labels
  and one row per row of the frame; with \<open>index=True\<close> a leading column holds the
  index labels. The file system is a map from paths to sheets; a file already at the
  path is replaced.
\<close>

record sheet =
  header :: "string list"
  sheet_rows :: "cell list list"

definition to_excel ::
  "dataframe \<Rightarrow> string \<Rightarrow> bool \<Rightarrow> (string \<rightharpoonup> sheet) \<Rightarrow> (string \<rightharpoonup> sheet)" where
  "to_excel df path with_index fs =
     fs(path \<mapsto>
        (if with_index
         then \<lparr>header = [] # columns df,
               sheet_rows = map (\<lambda>r. IntCell (int (fst r)) # snd r) (body df)\<rparr>
         else \<lparr>header = columns df, sheet_rows = map snd (body df)\<rparr>))"

text \<open>
  What \<open>main\<close> does after the loop, from the accumulator to the written file
  (lines 101 to 104).
\<close>

definition export ::
  "config \<Rightarrow> env \<Rightarrow> review list \<Rightarrow> (string \<rightharpoonup> sheet) \<Rightarrow> error + (string \<rightharpoonup> sheet)" where
  "export cfg w reviews fs =
     (let df = drop_duplicates (DataFrame (map as_dict reviews))
      in case getitem df ''published_at'' of
           Inl e \<Rightarrow> Inl e
         | Inr col \<Rightarrow>
             Inr (to_excel (setitem df ''published_at'' (map (to_datetime (parse_datetime w)) col))
                    (OUTPUT_FILE cfg) False fs))"

definition main ::
  "config \<Rightarrow> env \<Rightarrow> (string \<rightharpoonup> sheet) \<Rightarrow> error + (string \<rightharpoonup> sheet)" where
  "main cfg w fs =
     (case extract_app_id (APP_URL cfg) of
        Inl e \<Rightarrow> Inl e
      | Inr app_id \<Rightarrow>
          (case run_pages w app_id (COUNTRY cfg) (MAX_PAGES cfg) of
             (Aborted e, st) \<Rightarrow> Inl e
           | (_, st) \<Rightarrow> export cfg w (all_reviews st) fs))"

text \<open>
  For the statements about the export: the column labels of a review table, the row
  of cells of a record, that row after the timestamp coercion, and the records of a
  list at their first occurrence (the positions whose record does not occur before
  them, in increasing order).
\<close>

definition review_columns :: "string list" where
  "review_columns = [''username'', ''published_at'', ''rating'', ''title'', ''content'']"

definition cells_of :: "review \<Rightarrow> cell list" where
  "cells_of r =
     [StrCell (username r), StrCell (published_at r), IntCell (rating r),
      StrCell (title r), StrCell (content r)]"

definition coerced_cells :: "env \<Rightarrow> review \<Rightarrow> cell list" where
  "coerced_cells w r =
     [StrCell (username r), to_datetime (parse_datetime w) (StrCell (published_at r)),
      IntCell (rating r), StrCell (title r), StrCell (content r)]"

definition first_indices :: "'a list \<Rightarrow> nat list" where
  "first_indices xs = filter (\<lambda>i. xs ! i \<notin> set (take i xs)) [0..<length xs]"

definition first_occurrences :: "'a list \<Rightarrow> 'a list" where
  "first_occurrences xs = map (\<lambda>i. xs ! i) (first_indices xs)"

section \<open>Example documents\<close>

text \<open>
  Entries used to evaluate the parser: a full review, the metadata entry that opens a
  feed (no rating), a review with nothing but a rating, one whose rating is a word,
  one whose rating has 4301 digits, and one whose \<open>updated\<close> element is empty.
\<close>

definition entry_full :: element where
  "entry_full =
     Element (atom ''entry'') None
       [Element (atom ''updated'') (Some ''2024-05-01T10:00:00-07:00'') [],
        Element (atom ''published'') (Some ''2024-04-30T09:00:00-07:00'') [],
        Element (atom ''title'') (Some '' Great app '') [],
        Element (atom ''content'') (Some ''Works well.'') [],
        Element (im ''rating'') (Some '' 5 '') [],
        Element (atom ''author'') None [Element (atom ''name'') (Some ''bob'') []]]"

definition entry_meta :: element where
  "entry_meta =
     Element (atom ''entry'') None
       [Element (atom ''title'') (Some ''Meitu'') [],
        Element (im ''name'') (Some ''Meitu'') []]"

definition entry_bare :: element where
  "entry_bare = Element (atom ''entry'') None [Element (im ''rating'') (Some ''99'') []]"

definition entry_zero :: element where
  "entry_zero = Element (atom ''entry'') None [Element (im ''rating'') (Some ''0'') []]"

definition long_digits :: string where
  "long_digits = replicate 4301 CHR ''1''"

definition entry_long :: element where
  "entry_long = Element (atom ''entry'') None [Element (im ''rating'') (Some long_digits) []]"

definition entry_word :: element where
  "entry_word =
     Element (atom ''entry'') None
       [Element (atom ''content'') (Some ''Fine.'') [],
        Element (im ''rating'') (Some ''five'') []]"

definition entry_empty_updated :: element where
  "entry_empty_updated =
     Element (atom ''entry'') None
       [Element (atom ''updated'') None [],
        Element (atom ''published'') (Some ''2020-01-01'') [],
        Element (im ''rating'') (Some ''4'') []]"

definition feed :: "element list \<Rightarrow> element" where
  "feed entries = Element (atom ''feed'') None entries"

text \<open>
  A world in which page 1 of the feed holds fifty copies of the full review, after
  the metadata entry, and every other page holds no entry. The network answers a
  request with the URL itself, which the parser then recognises.
\<close>

definition page1_url :: string where
  "page1_url =
     ''https://itunes.apple.com/gb/rss/customerreviews/page=1/id=416048305/sortby=mostrecent/xml''"

definition world_fifty :: env where
  "world_fifty =
     \<lparr>http_get = (\<lambda>url. Inr url),
      fromstring = (\<lambda>body. if body = page1_url
                            then Inr (feed (entry_meta # replicate 50 entry_full))
                            else Inr (feed [])),
      parse_datetime = (\<lambda>s. None)\<rparr>"

text \<open>
  A review whose timestamp is not a date, and two more worlds: one whose page 1 holds
  the metadata entry, the full review, the review with the bad timestamp and the full
  review again, with a date parser that knows the timestamp of the full review; and
  one whose page 1 holds the metadata entry only.
\<close>

definition entry_garbage :: element where
  "entry_garbage =
     Element (atom ''entry'') None
       [Element (atom ''updated'') (Some ''not a date'') [],
        Element (atom ''title'') (Some ''Hm'') [],
        Element (im ''rating'') (Some ''2'') [],
        Element (atom ''author'') None [Element (atom ''name'') (Some ''eve'') []]]"

definition world_mixed :: env where
  "world_mixed =
     \<lparr>http_get = (\<lambda>url. Inr url),
      fromstring = (\<lambda>body. if body = page1_url
                            then Inr (feed [entry_meta, entry_full, entry_garbage, entry_full])
                            else Inr (feed [])),
      parse_datetime = (\<lambda>s. if s = ''2024-05-01T10:00:00-07:00''
                            then Some 1714582800000000000 else None)\<rparr>"

definition world_no_reviews :: env where
  "world_no_reviews =
     \<lparr>http_get = (\<lambda>url. Inr url),
      fromstring = (\<lambda>body. Inr (feed [entry_meta])),
      parse_datetime = (\<lambda>s. None)\<rparr>"

definition script_config :: config where
  "script_config =
     \<lparr>APP_URL = ''https://apps.apple.com/us/app/meitu-ai-photo-video-editor/id416048305'',
      COUNTRY = ''gb'',
      MAX_PAGES = 10,
      OUTPUT_FILE = ''meitu_gb_reviews.xlsx''\<rparr>"

text \<open>Two records that differ in the rating only.\<close>

definition review_a :: review where
  "review_a =
     \<lparr>username = ''bob'', published_at = ''2024-05-01T10:00:00-07:00'', rating = 5,
      title = ''Great app'', content = ''Works well.''\<rparr>"

definition review_b :: review where
  "review_b =
     \<lparr>username = ''bob'', published_at = ''2024-05-01T10:00:00-07:00'', rating = 4,
      title = ''Great app'', content = ''Works well.''\<rparr>"

section \<open>Properties of the identifier resolver\<close>

lemma not_space_i [simp]: "\<not> is_space CHR ''i''" "\<not> is_space CHR ''d''"
  by (simp_all add: is_space_def)

lemma decimal_not_space: "is_decimal c \<Longrightarrow> \<not> is_space c"
  by (auto simp: is_decimal_def is_space_def Let_def)

lemma digit_char_not_space: "is_digit_char c \<Longrightarrow> \<not> is_space c"
  by (auto simp: is_digit_char_def is_space_def Let_def)

lemma takeWhile_decimal_spaces:
  "list_all is_space ws \<Longrightarrow> takeWhile is_decimal (r @ ws) = takeWhile is_decimal r"
proof (induction r)
  case Nil
  then show ?case by (cases ws) (auto dest: decimal_not_space)
next
  case (Cons a r)
  then show ?case by simp
qed

lemma match_id_space: "is_space c \<Longrightarrow> match_id (c # cs) = None"
  by (auto simp: match_id_def split: list.splits)

lemma match_id_append_spaces:
  "list_all is_space ws \<Longrightarrow> match_id (t @ ws) = match_id t"
proof (cases t)
  case Nil
  assume "list_all is_space ws"
  with Nil show ?thesis by (cases ws) (auto simp: match_id_space, simp add: match_id_def)
next
  case (Cons c cs)
  assume ws: "list_all is_space ws"
  show ?thesis
  proof (cases cs)
    case Nil
    with Cons ws show ?thesis
      by (cases ws) (auto simp: match_id_def)
  next
    case (Cons d rest)
    with \<open>t = c # cs\<close> ws show ?thesis
      by (simp add: match_id_def takeWhile_decimal_spaces)
  qed
qed

lemma re_search_id_lstrip: "re_search_id (dropWhile is_space s) = re_search_id s"
  by (induction s) (auto simp: match_id_space)

lemma re_search_id_spaces: "list_all is_space ws \<Longrightarrow> re_search_id ws = None"
  by (induction ws) (auto simp: match_id_space)

lemma re_search_id_append_spaces:
  "list_all is_space ws \<Longrightarrow> re_search_id (t @ ws) = re_search_id t"
proof (induction t)
  case Nil
  then show ?case by (simp add: re_search_id_spaces)
next
  case (Cons c cs)
  from match_id_append_spaces [OF Cons.prems, of "c # cs"] Cons.IH [OF Cons.prems]
  show ?case by (simp split: option.splits)
qed

lemma rstrip_decomp: "s = rstrip s @ rev (takeWhile is_space (rev s))"
proof -
  have "rev s = takeWhile is_space (rev s) @ dropWhile is_space (rev s)" by simp
  then have "rev (rev s) = rev (takeWhile is_space (rev s) @ dropWhile is_space (rev s))"
    by simp
  then show ?thesis unfolding rstrip_def by (simp del: takeWhile_dropWhile_id)
qed

lemma re_search_id_rstrip: "re_search_id (rstrip s) = re_search_id s"
proof -
  have "list_all is_space (rev (takeWhile is_space (rev s)))"
    by (simp add: list_all_iff) (meson set_takeWhileD)
  from re_search_id_append_spaces [OF this, of "rstrip s"] show ?thesis
    using rstrip_decomp [of s] by simp
qed

lemma re_search_id_strip: "re_search_id (strip s) = re_search_id s"
  by (simp add: strip_def lstrip_def re_search_id_lstrip re_search_id_rstrip)

lemma match_id_Some_i: "match_id t = Some g \<Longrightarrow> CHR ''i'' \<in> set t"
  by (auto simp: match_id_def split: list.splits if_splits)

lemma re_search_id_Some_i: "re_search_id t = Some g \<Longrightarrow> CHR ''i'' \<in> set t"
  by (induction t) (auto split: option.splits dest: match_id_Some_i)

lemma isdigit_no_i: "isdigit t \<Longrightarrow> CHR ''i'' \<notin> set t"
  by (auto simp: isdigit_def list_all_iff is_digit_char_def split: if_splits)

lemma isdigit_strip: "isdigit s \<Longrightarrow> strip s = s"
proof -
  assume a: "isdigit s"
  then have ne: "s \<noteq> []" and all: "\<forall>c\<in>set s. \<not> is_space c"
    by (auto simp: isdigit_def list_all_iff digit_char_not_space split: if_splits)
  then have "dropWhile is_space (rev s) = rev s"
    by (metis dropWhile_eq_self_iff hd_in_set rev_is_Nil_conv set_rev)
  then have "rstrip s = s" by (simp add: rstrip_def)
  moreover have "dropWhile is_space s = s" using ne all
    by (metis dropWhile_eq_self_iff hd_in_set)
  ultimately show ?thesis by (simp add: strip_def lstrip_def)
qed

lemma match_id_iff:
  "match_id s \<noteq> None \<longleftrightarrow> (\<exists>d rest. s = ''id'' @ d # rest \<and> is_decimal d)"
proof
  assume "match_id s \<noteq> None"
  then obtain rest where s: "s = ''id'' @ rest" and t: "takeWhile is_decimal rest \<noteq> []"
    by (auto simp: match_id_def split: list.splits if_splits)
  from t obtain d r where "rest = d # r" "is_decimal d"
    by (cases rest) (auto split: if_splits)
  with s show "\<exists>d rest. s = ''id'' @ d # rest \<and> is_decimal d" by blast
next
  assume "\<exists>d rest. s = ''id'' @ d # rest \<and> is_decimal d"
  then show "match_id s \<noteq> None" by (auto simp: match_id_def)
qed

lemma re_search_id_iff:
  "re_search_id s \<noteq> None \<longleftrightarrow> (\<exists>pre d rest. s = pre @ ''id'' @ d # rest \<and> is_decimal d)"
proof (induction s)
  case Nil
  then show ?case by simp
next
  case (Cons c cs)
  show ?case
  proof (cases "match_id (c # cs)")
    case None
    then have nm: "\<not> (\<exists>d rest. c # cs = ''id'' @ d # rest \<and> is_decimal d)"
      using match_id_iff [of "c # cs"] by simp
    have "(\<exists>pre d rest. c # cs = pre @ ''id'' @ d # rest \<and> is_decimal d)
        \<longleftrightarrow> (\<exists>pre d rest. cs = pre @ ''id'' @ d # rest \<and> is_decimal d)"
    proof
      assume "\<exists>pre d rest. c # cs = pre @ ''id'' @ d # rest \<and> is_decimal d"
      then obtain pre d rest where e: "c # cs = pre @ ''id'' @ d # rest" "is_decimal d"
        by blast
      with nm have "pre \<noteq> []" by auto
      then obtain p ps where "pre = p # ps" by (cases pre) auto
      with e show "\<exists>pre d rest. cs = pre @ ''id'' @ d # rest \<and> is_decimal d" by auto
    next
      assume "\<exists>pre d rest. cs = pre @ ''id'' @ d # rest \<and> is_decimal d"
      then obtain pre d rest where e: "cs = pre @ ''id'' @ d # rest" "is_decimal d"
        by blast
      then have "c # cs = (c # pre) @ ''id'' @ d # rest" by simp
      with e show "\<exists>pre d rest. c # cs = pre @ ''id'' @ d # rest \<and> is_decimal d" by blast
    qed
    with None Cons.IH show ?thesis by simp
  next
    case (Some g)
    then have "\<exists>d rest. c # cs = ''id'' @ d # rest \<and> is_decimal d"
      using match_id_iff [of "c # cs"] by simp
    then have "\<exists>pre d rest. c # cs = pre @ ''id'' @ d # rest \<and> is_decimal d"
      by (metis append_Nil)
    with Some show ?thesis by simp
  qed
qed

lemma takeWhile_decimal_run:
  "list_all is_decimal ds \<Longrightarrow> takeWhile is_decimal rest = [] \<Longrightarrow>
   takeWhile is_decimal (ds @ rest) = ds"
  by (induction ds) auto

lemma not_decimal_i [simp]: "\<not> is_decimal CHR ''i''" "\<not> is_decimal CHR ''d''"
  by (simp_all add: is_decimal_def)

lemma match_id_prefix_None:
  assumes "match_id (c # cs) = None"
  shows "match_id (c # cs @ ''id'' @ tail) = None"
proof (cases cs)
  case Nil
  then show ?thesis by (simp add: match_id_def)
next
  case (Cons d rest)
  show ?thesis
  proof (cases rest)
    case Nil
    with Cons show ?thesis by (simp add: match_id_def)
  next
    case (Cons r rs)
    with \<open>cs = d # rest\<close> assms show ?thesis
      by (auto simp: match_id_def split: if_splits)
  qed
qed

lemma re_search_id_leftmost:
  assumes "re_search_id pre = None" "ds \<noteq> []" "list_all is_decimal ds"
    "takeWhile is_decimal rest = []"
  shows "re_search_id (pre @ ''id'' @ ds @ rest) = Some ds"
  using assms
proof (induction pre)
  case Nil
  then show ?case by (simp add: match_id_def takeWhile_decimal_run)
next
  case (Cons c cs)
  from Cons.prems(1) have m: "match_id (c # cs) = None" and r: "re_search_id cs = None"
    by (auto split: option.splits)
  from match_id_prefix_None [OF m, of "ds @ rest"] Cons.IH [OF r Cons.prems(2-4)]
  show ?case by simp
qed

lemma re_search_id_None_iff:
  "re_search_id s = None \<longleftrightarrow> \<not> (\<exists>p d r. s = p @ ''id'' @ d # r \<and> is_decimal d)"
  using re_search_id_iff [of s] by blast

lemma extract_app_id_search:
  "re_search_id s = Some g \<Longrightarrow> extract_app_id s = Inr g"
proof -
  assume a: "re_search_id s = Some g"
  then have "re_search_id (strip s) = Some g" by (simp add: re_search_id_strip)
  moreover from this have "\<not> isdigit (strip s)"
    using re_search_id_Some_i isdigit_no_i by blast
  ultimately show ?thesis by (simp add: extract_app_id_def)
qed

text \<open>
  C3, as the code has it. An input that \<open>isdigit\<close> accepts (not empty, digits only)
  is returned unchanged, and so is, more generally, the stripped input when that is
  all digits. An input in which \<open>id\<close> followed by the digits \<open>ds\<close> occurs, with no
  digit after \<open>ds\<close> and no \<open>id\<close>-digit occurrence before it, resolves to exactly
  \<open>ds\<close>. \<open>ValueError\<close> is raised if and only if the input, once the surrounding
  whitespace is stripped, is not an all-digit string and the input contains no \<open>id\<close>
  followed by a digit.
\<close>

theorem extract_app_id_resolves:
  "(isdigit s \<longrightarrow> extract_app_id s = Inr s)
   \<and> (isdigit (strip s) \<longrightarrow> extract_app_id s = Inr (strip s))
   \<and> (s = pre @ ''id'' @ ds @ rest \<and> ds \<noteq> [] \<and> list_all is_decimal ds
        \<and> (rest = [] \<or> \<not> is_decimal (hd rest))
        \<and> \<not> (\<exists>p d r. pre = p @ ''id'' @ d # r \<and> is_decimal d)
      \<longrightarrow> extract_app_id s = Inr ds)
   \<and> (extract_app_id s = Inl ValueError \<longleftrightarrow>
        \<not> isdigit (strip s) \<and> \<not> (\<exists>p d r. s = p @ ''id'' @ d # r \<and> is_decimal d))"
proof (intro conjI impI)
  assume "isdigit s"
  then show "extract_app_id s = Inr s"
    by (simp add: extract_app_id_def isdigit_strip)
next
  assume "isdigit (strip s)"
  then show "extract_app_id s = Inr (strip s)"
    by (simp add: extract_app_id_def)
next
  assume a: "s = pre @ ''id'' @ ds @ rest \<and> ds \<noteq> [] \<and> list_all is_decimal ds
        \<and> (rest = [] \<or> \<not> is_decimal (hd rest))
        \<and> \<not> (\<exists>p d r. pre = p @ ''id'' @ d # r \<and> is_decimal d)"
  then have "re_search_id pre = None" by (simp add: re_search_id_None_iff)
  moreover from a have "takeWhile is_decimal rest = []" by (cases rest) auto
  ultimately have "re_search_id s = Some ds"
    using a re_search_id_leftmost [of pre ds rest] by simp
  then show "extract_app_id s = Inr ds" by (rule extract_app_id_search)
next
  have "extract_app_id s = Inl ValueError \<longleftrightarrow>
        \<not> isdigit (strip s) \<and> re_search_id (strip s) = None"
    by (simp add: extract_app_id_def Let_def split: option.splits)
  also have "re_search_id (strip s) = None \<longleftrightarrow>
        \<not> (\<exists>p d r. s = p @ ''id'' @ d # r \<and> is_decimal d)"
    unfolding re_search_id_strip by (rule re_search_id_None_iff)
  finally show "extract_app_id s = Inl ValueError \<longleftrightarrow>
        \<not> isdigit (strip s) \<and> \<not> (\<exists>p d r. s = p @ ''id'' @ d # r \<and> is_decimal d)" .
qed

theorem extract_app_id_resolves_witness:
  "isdigit ''416048305'' \<and> extract_app_id ''416048305'' = Inr ''416048305''
   \<and> isdigit (strip '' 42 '') \<and> extract_app_id '' 42 '' = Inr ''42''
   \<and> extract_app_id ''https://apps.apple.com/us/app/meitu-ai-photo-video-editor/id416048305''
       = Inr ''416048305''
   \<and> extract_app_id ''video'' = Inl ValueError"
proof -
  have d: "isdigit ''416048305''"
    by (simp add: isdigit_def is_digit_char_def)
  have st: "strip '' 42 '' = ''42''"
    by (simp add: strip_def lstrip_def rstrip_def is_space_def)
  have d2: "isdigit (strip '' 42 '')"
    unfolding st by (simp add: isdigit_def is_digit_char_def)
  have pre: "\<not> (\<exists>p d r. ''https://apps.apple.com/us/app/meitu-ai-photo-video-editor/''
                = p @ ''id'' @ d # r \<and> is_decimal d)"
    unfolding re_search_id_None_iff [symmetric] by (simp add: match_id_def is_decimal_def)
  have ds: "list_all is_decimal ''416048305''"
    by (simp add: is_decimal_def)
  have v1: "\<not> isdigit (strip ''video'')"
    by (simp add: strip_def lstrip_def rstrip_def is_space_def isdigit_def is_digit_char_def)
  have v2: "\<not> (\<exists>p d r. ''video'' = p @ ''id'' @ d # r \<and> is_decimal d)"
    unfolding re_search_id_None_iff [symmetric] by (simp add: match_id_def is_decimal_def)
  from d extract_app_id_resolves [of "''416048305''"]
  have "extract_app_id ''416048305'' = Inr ''416048305''" by blast
  moreover from d2 extract_app_id_resolves [of "'' 42 ''"]
  have "extract_app_id '' 42 '' = Inr ''42''" unfolding st by blast
  moreover from pre ds
    extract_app_id_resolves
      [of "''https://apps.apple.com/us/app/meitu-ai-photo-video-editor/id416048305''"
          "''https://apps.apple.com/us/app/meitu-ai-photo-video-editor/''"
          "''416048305''" "[]"]
  have "extract_app_id ''https://apps.apple.com/us/app/meitu-ai-photo-video-editor/id416048305''
       = Inr ''416048305''" by simp
  moreover from v1 v2 extract_app_id_resolves [of "''video''"]
  have "extract_app_id ''video'' = Inl ValueError" by blast
  ultimately show ?thesis using d d2 by blast
qed

text \<open>
  C3 as stated fails: the input \<open>'' 42''\<close> is not all digits (it begins with a
  blank) and holds no \<open>id\<close> pattern, yet no error is raised, because the input is
  stripped before it is tested.
\<close>

theorem extract_app_id_blank_counterexample:
  "\<not> isdigit '' 42'' \<and> re_search_id '' 42'' = None
   \<and> extract_app_id '' 42'' = Inr ''42''"
  by (simp add: isdigit_def is_digit_char_def match_id_def extract_app_id_def
      strip_def lstrip_def rstrip_def is_space_def)

section \<open>Properties of the feed parser\<close>

lemma parse_entries_skip:
  "\<not> rating_bearing e \<Longrightarrow> parse_entries (e # es) rows = parse_entries es rows"
  by (simp add: rating_bearing_def)

lemma parse_entries_record:
  "rating_value e = Some r \<Longrightarrow>
   parse_entries (e # es) rows = parse_entries es (rows @ [review_of e r])"
  by (auto simp: rating_value_def split: option.splits)


lemma parse_entries_valid:
  "\<forall>e\<in>set es. rating_bearing e \<longrightarrow> rating_value e \<noteq> None \<Longrightarrow>
   parse_entries es rows =
     Inr (rows @ map (\<lambda>e. review_of e (the (rating_value e))) (filter rating_bearing es))"
proof (induction es arbitrary: rows)
  case Nil
  then show ?case by simp
next
  case (Cons e es)
  show ?case
  proof (cases "rating_bearing e")
    case False
    from Cons.prems have "\<forall>e\<in>set es. rating_bearing e \<longrightarrow> rating_value e \<noteq> None" by simp
    from Cons.IH [OF this] False show ?thesis
      by (simp add: parse_entries_skip del: parse_entries.simps)
  next
    case True
    with Cons.prems obtain r where r: "rating_value e = Some r" by auto
    from Cons.prems have "\<forall>e\<in>set es. rating_bearing e \<longrightarrow> rating_value e \<noteq> None" by simp
    from Cons.IH [OF this] r True show ?thesis
      by (simp add: parse_entries_record del: parse_entries.simps)
  qed
qed


lemma rstrip_last: "rstrip s \<noteq> [] \<Longrightarrow> \<not> is_space (last (rstrip s))"
  unfolding rstrip_def
  by (metis hd_dropWhile last_rev rev_is_Nil_conv)

lemma lstrip_hd: "lstrip s \<noteq> [] \<Longrightarrow> \<not> is_space (hd (lstrip s))"
  unfolding lstrip_def by (rule hd_dropWhile)

lemma last_dropWhile: "dropWhile P xs \<noteq> [] \<Longrightarrow> last (dropWhile P xs) = last xs"
  by (induction xs) (auto split: if_splits)

lemma trimmed_strip: "trimmed (strip s)"
proof (cases "strip s = []")
  case True
  then show ?thesis by (simp add: trimmed_def)
next
  case False
  then have ne: "rstrip s \<noteq> []" by (auto simp: strip_def lstrip_def)
  from False have "\<not> is_space (hd (strip s))"
    unfolding strip_def by (rule lstrip_hd)
  moreover from False have "last (strip s) = last (rstrip s)"
    unfolding strip_def lstrip_def by (rule last_dropWhile)
  with rstrip_last [OF ne] have "\<not> is_space (last (strip s))" by simp
  ultimately show ?thesis using False by (simp add: trimmed_def)
qed

lemma strip_trimmed: "trimmed s \<Longrightarrow> strip s = s"
proof (cases "s = []")
  case True
  then show ?thesis by (simp add: strip_def lstrip_def rstrip_def)
next
  case False
  assume "trimmed s"
  with False have h: "\<not> is_space (hd s)" and l: "\<not> is_space (last s)"
    by (auto simp: trimmed_def)
  from False l have "dropWhile is_space (rev s) = rev s"
    by (metis dropWhile_eq_self_iff hd_rev rev_is_Nil_conv)
  then have "rstrip s = s" by (simp add: rstrip_def)
  moreover from False h have "dropWhile is_space s = s"
    by (metis dropWhile_eq_self_iff)
  ultimately show ?thesis by (simp add: strip_def lstrip_def)
qed

lemma strip_Nil [simp]: "strip [] = []"
  by (simp add: strip_def lstrip_def rstrip_def)

lemma published_at_review_of:
  "published_at (review_of e r) =
     (case findtext [atom ''updated''] e of
        Some u \<Rightarrow> if u \<noteq> [] then strip u
                  else (case findtext [atom ''published''] e of None \<Rightarrow> [] | Some p \<Rightarrow> strip p)
      | None \<Rightarrow> (case findtext [atom ''published''] e of None \<Rightarrow> [] | Some p \<Rightarrow> strip p))"
  by (simp add: review_of_def py_or_def truthy_def or_empty_def split: option.splits)

text \<open>The definitions unfolded to evaluate the parser on the example documents.\<close>

lemmas eval_defs =
  entry_full_def entry_meta_def entry_bare_def entry_zero_def entry_word_def
  entry_empty_updated_def feed_def
  rating_bearing_def rating_value_def findtext_def atom_def im_def
  py_int_def int_strip_def is_int_space_def digits_limited_def int_max_str_digits_def
  strip_def lstrip_def rstrip_def is_space_def is_decimal_def digit_val_def
  review_of_def or_empty_def py_or_def truthy_def parse_reviews_def

text \<open>
  C4, as the code has it. When every rating-bearing entry of the document has a rating
  text that \<open>int\<close> accepts, a document with \<open>N\<close> rating-bearing entries and \<open>M\<close>
  others parses to exactly \<open>N\<close> records: the records of the rating-bearing entries,
  in document order. The entries without a rating give no record and no error.
\<close>

theorem parse_reviews_rating_bearing:
  assumes "from_string xml = Inr root"
    and "\<forall>e\<in>set (findall [atom ''entry''] root). rating_bearing e \<longrightarrow> rating_value e \<noteq> None"
    and "length (filter rating_bearing (findall [atom ''entry''] root)) = N"
    and "length (filter (\<lambda>e. \<not> rating_bearing e) (findall [atom ''entry''] root)) = M"
  shows "(\<exists>rows. parse_reviews from_string xml = Inr rows \<and> length rows = N)
    \<and> parse_reviews from_string xml =
        Inr (map (\<lambda>e. review_of e (the (rating_value e)))
               (filter rating_bearing (findall [atom ''entry''] root)))"
  using assms(1,3) parse_entries_valid [OF assms(2), of "[]"]
  by (simp add: parse_reviews_def)

theorem parse_reviews_rating_bearing_witness:
  "(\<lambda>b. Inr (feed [entry_meta, entry_full, entry_bare])) [] = Inr (feed [entry_meta, entry_full, entry_bare])
   \<and> findall [atom ''entry''] (feed [entry_meta, entry_full, entry_bare])
       = [entry_meta, entry_full, entry_bare]
   \<and> rating_value entry_full = Some 5 \<and> rating_value entry_bare = Some 99
   \<and> length (filter rating_bearing (findall [atom ''entry''] (feed [entry_meta, entry_full, entry_bare]))) = 2
   \<and> length (filter (\<lambda>e. \<not> rating_bearing e) (findall [atom ''entry''] (feed [entry_meta, entry_full, entry_bare]))) = 1
   \<and> parse_reviews (\<lambda>b. Inr (feed [entry_meta, entry_full, entry_bare])) [] =
       Inr [\<lparr>username = ''bob'', published_at = ''2024-05-01T10:00:00-07:00'', rating = 5,
              title = ''Great app'', content = ''Works well.''\<rparr>,
            \<lparr>username = [], published_at = [], rating = 99, title = [], content = []\<rparr>]"
proof -
  let ?doc = "feed [entry_meta, entry_full, entry_bare]"
  have es: "findall [atom ''entry''] ?doc = [entry_meta, entry_full, entry_bare]"
    by (simp add: feed_def entry_meta_def entry_full_def entry_bare_def atom_def)
  have b: "\<not> rating_bearing entry_meta" "rating_bearing entry_full" "rating_bearing entry_bare"
    by (simp_all add: eval_defs)
  have v: "rating_value entry_full = Some 5" "rating_value entry_bare = Some 99"
    by (simp_all add: eval_defs)
  have h2: "\<forall>e\<in>set (findall [atom ''entry''] ?doc). rating_bearing e \<longrightarrow> rating_value e \<noteq> None"
    unfolding es using b v by simp
  have h3: "length (filter rating_bearing (findall [atom ''entry''] ?doc)) = 2"
    unfolding es using b by simp
  have h4: "length (filter (\<lambda>e. \<not> rating_bearing e) (findall [atom ''entry''] ?doc)) = 1"
    unfolding es using b by simp
  have r1: "review_of entry_full 5 = \<lparr>username = ''bob'', published_at = ''2024-05-01T10:00:00-07:00'', rating = 5,
              title = ''Great app'', content = ''Works well.''\<rparr>"
    by (simp add: eval_defs)
  have r2: "review_of entry_bare 99 = \<lparr>username = [], published_at = [], rating = 99, title = [], content = []\<rparr>"
    by (simp add: eval_defs)
  from parse_reviews_rating_bearing [of "\<lambda>b. Inr ?doc" "[]" ?doc 2 1, OF refl h2 h3 h4]
  have "parse_reviews (\<lambda>b. Inr ?doc) [] = Inr [review_of entry_full 5, review_of entry_bare 99]"
    unfolding es using b v by simp
  with es v h3 h4 r1 r2 show ?thesis by simp
qed

text \<open>
  C4 as stated fails: a document whose only entry carries the rating text \<open>five\<close>
  has one rating-bearing entry, and parsing it raises instead of returning one record.
\<close>

theorem parse_reviews_word_rating_counterexample:
  "length (filter rating_bearing (findall [atom ''entry''] (feed [entry_word]))) = 1
   \<and> length (filter (\<lambda>e. \<not> rating_bearing e) (findall [atom ''entry''] (feed [entry_word]))) = 0
   \<and> parse_reviews (\<lambda>b. Inr (feed [entry_word])) [] = Inl ValueError"
  by (simp add: eval_defs)

text \<open>
  C5, as the code has it. For a rating-bearing entry whose rating converts, the record
  is \<open>review_of\<close> of the entry, and its timestamp is the stripped text of \<open>updated\<close>
  when that element is present with a text that is not empty; otherwise the stripped
  text of \<open>published\<close> when that element is present; otherwise the empty string.
\<close>

theorem published_at_fallback:
  assumes "rating_value e = Some r"
  shows "parse_entries (e # es) rows = parse_entries es (rows @ [review_of e r])
    \<and> (\<forall>u. findtext [atom ''updated''] e = Some u \<and> u \<noteq> [] \<longrightarrow>
           published_at (review_of e r) = strip u)
    \<and> (\<forall>p. (findtext [atom ''updated''] e = None \<or> findtext [atom ''updated''] e = Some [])
           \<and> findtext [atom ''published''] e = Some p \<longrightarrow>
           published_at (review_of e r) = strip p)
    \<and> ((findtext [atom ''updated''] e = None \<or> findtext [atom ''updated''] e = Some [])
           \<and> findtext [atom ''published''] e = None \<longrightarrow>
           published_at (review_of e r) = [])"
proof (intro conjI)
  show "parse_entries (e # es) rows = parse_entries es (rows @ [review_of e r])"
    using assms by (rule parse_entries_record)
qed (auto simp: published_at_review_of)

theorem published_at_fallback_witness:
  "rating_value entry_full = Some 5
   \<and> findtext [atom ''updated''] entry_full = Some ''2024-05-01T10:00:00-07:00''
   \<and> parse_entries [entry_full] [] = Inr [review_of entry_full 5]
   \<and> published_at (review_of entry_full 5) = ''2024-05-01T10:00:00-07:00''
   \<and> rating_value entry_empty_updated = Some 4
   \<and> findtext [atom ''updated''] entry_empty_updated = Some []
   \<and> findtext [atom ''published''] entry_empty_updated = Some ''2020-01-01''
   \<and> published_at (review_of entry_empty_updated 4) = ''2020-01-01''
   \<and> rating_value entry_bare = Some 99
   \<and> findtext [atom ''updated''] entry_bare = None
   \<and> findtext [atom ''published''] entry_bare = None
   \<and> published_at (review_of entry_bare 99) = []"
proof -
  have v: "rating_value entry_full = Some 5" "rating_value entry_empty_updated = Some 4"
    "rating_value entry_bare = Some 99"
    by (simp_all add: eval_defs)
  have f: "findtext [atom ''updated''] entry_full = Some ''2024-05-01T10:00:00-07:00''"
    "findtext [atom ''updated''] entry_empty_updated = Some []"
    "findtext [atom ''published''] entry_empty_updated = Some ''2020-01-01''"
    "findtext [atom ''updated''] entry_bare = None"
    "findtext [atom ''published''] entry_bare = None"
    by (simp_all add: entry_full_def entry_empty_updated_def entry_bare_def findtext_def
        atom_def im_def)
  have s: "strip ''2024-05-01T10:00:00-07:00'' = ''2024-05-01T10:00:00-07:00''"
    "strip ''2020-01-01'' = ''2020-01-01''"
    by (simp_all add: strip_def lstrip_def rstrip_def is_space_def)
  from published_at_fallback [OF v(1), of "[]" "[]"] f(1) s(1)
  have a: "parse_entries [entry_full] [] = Inr [review_of entry_full 5]"
    "published_at (review_of entry_full 5) = ''2024-05-01T10:00:00-07:00''"
    by simp_all
  from published_at_fallback [OF v(2), of "[]" "[]"] f(2,3) s(2)
  have b: "published_at (review_of entry_empty_updated 4) = ''2020-01-01''"
    by simp
  from published_at_fallback [OF v(3), of "[]" "[]"] f(4,5)
  have c: "published_at (review_of entry_bare 99) = []"
    by simp
  from v f a b c show ?thesis by simp
qed

text \<open>
  C5 as stated fails: in \<open>entry_empty_updated\<close> the \<open>updated\<close> element exists, with
  no text, and the record's timestamp is the value of \<open>published\<close>.
\<close>

theorem published_used_counterexample:
  "rating_bearing entry_empty_updated
   \<and> findall [atom ''updated''] entry_empty_updated \<noteq> []
   \<and> findtext [atom ''published''] entry_empty_updated = Some ''2020-01-01''
   \<and> parse_entries [entry_empty_updated] [] =
       Inr [\<lparr>username = [], published_at = ''2020-01-01'', rating = 4, title = [],
              content = []\<rparr>]"
  by (simp add: eval_defs)

text \<open>
  C6, as the code has it. For a rating-bearing entry whose rating converts, the parser
  appends a record in which a missing title, content or author name is the empty
  string, and every text field is the stripped text found, with no whitespace at
  either end.
\<close>

theorem missing_fields_empty:
  assumes "rating_value e = Some r"
  shows "parse_entries (e # es) rows = parse_entries es (rows @ [review_of e r])
    \<and> (findtext [atom ''title''] e = None \<longrightarrow> title (review_of e r) = [])
    \<and> (findtext [atom ''content''] e = None \<longrightarrow> content (review_of e r) = [])
    \<and> (findtext [atom ''author'', atom ''name''] e = None \<longrightarrow> username (review_of e r) = [])
    \<and> username (review_of e r) = strip (or_empty (findtext [atom ''author'', atom ''name''] e))
    \<and> title (review_of e r) = strip (or_empty (findtext [atom ''title''] e))
    \<and> content (review_of e r) = strip (or_empty (findtext [atom ''content''] e))
    \<and> trimmed (username (review_of e r)) \<and> trimmed (published_at (review_of e r))
    \<and> trimmed (title (review_of e r)) \<and> trimmed (content (review_of e r))"
proof (intro conjI)
  show "parse_entries (e # es) rows = parse_entries es (rows @ [review_of e r])"
    using assms by (rule parse_entries_record)
qed (simp_all add: review_of_def or_empty_def trimmed_strip)

theorem missing_fields_empty_witness:
  "rating_value entry_bare = Some 99
   \<and> findtext [atom ''title''] entry_bare = None
   \<and> findtext [atom ''content''] entry_bare = None
   \<and> findtext [atom ''author'', atom ''name''] entry_bare = None
   \<and> parse_entries [entry_bare] [] =
       Inr [\<lparr>username = [], published_at = [], rating = 99, title = [], content = []\<rparr>]
   \<and> rating_value entry_full = Some 5
   \<and> title (review_of entry_full 5) = ''Great app''"
proof -
  have v: "rating_value entry_bare = Some 99" "rating_value entry_full = Some 5"
    by (simp_all add: eval_defs)
  have f: "findtext [atom ''title''] entry_bare = None"
    "findtext [atom ''content''] entry_bare = None"
    "findtext [atom ''author'', atom ''name''] entry_bare = None"
    "findtext [atom ''updated''] entry_bare = None"
    "findtext [atom ''published''] entry_bare = None"
    by (simp_all add: entry_bare_def findtext_def atom_def im_def)
  have g: "findtext [atom ''title''] entry_full = Some '' Great app ''"
    by (simp add: entry_full_def findtext_def atom_def im_def)
  have s: "strip '' Great app '' = ''Great app''"
    by (simp add: strip_def lstrip_def rstrip_def is_space_def)
  have p: "published_at (review_of entry_bare 99) = []"
    using f by (simp add: published_at_review_of)
  from missing_fields_empty [OF v(1), of "[]" "[]"] f p
  have "review_of entry_bare 99 =
      \<lparr>username = [], published_at = [], rating = 99, title = [], content = []\<rparr>"
    by (simp add: review_of_def)
  with missing_fields_empty [OF v(1), of "[]" "[]"]
  have a: "parse_entries [entry_bare] [] =
       Inr [\<lparr>username = [], published_at = [], rating = 99, title = [], content = []\<rparr>]"
    by simp
  from missing_fields_empty [OF v(2), of "[]" "[]"] g s
  have b: "title (review_of entry_full 5) = ''Great app''"
    by (simp add: or_empty_def)
  from v f a b show ?thesis by simp
qed

text \<open>
  C6 as stated fails: \<open>entry_word\<close> carries a rating and lacks a title, and the
  parser raises on it instead of producing a record.
\<close>

theorem missing_title_word_rating_counterexample:
  "rating_bearing entry_word
   \<and> findtext [atom ''title''] entry_word = None
   \<and> parse_entries [entry_word] [] = Inl ValueError"
  by (simp add: eval_defs)



section \<open>Properties of the page loop\<close>

lemma page_loop_step:
  "page_loop w a c (p # ps) st =
     (case page_result w a c p of
        Inl e \<Rightarrow> (Aborted e, st\<lparr>fetched := fetched st @ [p]\<rparr>)
      | Inr rs \<Rightarrow>
          if rs = [] then (Exhausted, st\<lparr>fetched := fetched st @ [p]\<rparr>)
          else page_loop w a c ps
                 (st\<lparr>fetched := fetched st @ [p], all_reviews := all_reviews st @ rs\<rparr>))"
  by (simp add: page_result_def Let_def split: sum.splits)

lemma page_loop_through:
  assumes "\<forall>q\<in>set qs. yields_reviews w a c q"
  shows "page_loop w a c (qs @ ps) st =
         page_loop w a c ps
           (st\<lparr>fetched := fetched st @ qs,
               all_reviews := all_reviews st @ concat (map (page_records w a c) qs)\<rparr>)"
  using assms
proof (induction qs arbitrary: st)
  case Nil
  then show ?case by simp
next
  case (Cons q qs)
  from Cons.prems obtain rs where rs: "page_result w a c q = Inr rs" "rs \<noteq> []"
    by (auto simp: yields_reviews_def split: sum.splits)
  from Cons.prems have "\<forall>q\<in>set qs. yields_reviews w a c q" by simp
  from Cons.IH [OF this] rs show ?case
    by (simp add: page_loop_step page_records_def del: page_loop.simps)
qed

lemma page_loop_ceiling:
  assumes "\<forall>q\<in>set ps. yields_reviews w a c q"
  shows "page_loop w a c ps st =
         (Ceiling, st\<lparr>fetched := fetched st @ ps,
               all_reviews := all_reviews st @ concat (map (page_records w a c) ps)\<rparr>)"
  using page_loop_through [OF assms, of "[]" st] by simp

lemma page_loop_exhausted:
  assumes "\<forall>q\<in>set qs. yields_reviews w a c q" "page_result w a c p = Inr []"
  shows "page_loop w a c (qs @ p # rest) st =
         (Exhausted, st\<lparr>fetched := fetched st @ qs @ [p],
               all_reviews := all_reviews st @ concat (map (page_records w a c) qs)\<rparr>)"
  using page_loop_through [OF assms(1), of "p # rest" st] assms(2)
  by (simp add: page_loop_step del: page_loop.simps)

lemma page_loop_aborted:
  assumes "\<forall>q\<in>set qs. yields_reviews w a c q" "page_result w a c p = Inl e"
  shows "page_loop w a c (qs @ p # rest) st =
         (Aborted e, st\<lparr>fetched := fetched st @ qs @ [p],
               all_reviews := all_reviews st @ concat (map (page_records w a c) qs)\<rparr>)"
  using page_loop_through [OF assms(1), of "p # rest" st] assms(2)
  by (simp add: page_loop_step del: page_loop.simps)

lemma page_loop_cases:
  obtains (ceiling) "\<forall>q\<in>set ps. yields_reviews w a c q"
  | (stopped) qs p rest where "ps = qs @ p # rest" "\<forall>q\<in>set qs. yields_reviews w a c q"
      "\<not> yields_reviews w a c p"
proof (cases "\<forall>q\<in>set ps. yields_reviews w a c q")
  case True
  then show ?thesis by (rule ceiling)
next
  case False
  then have "\<exists>q\<in>set ps. \<not> yields_reviews w a c q" by simp
  from split_list_first_prop [OF this] obtain qs p rest where
    "ps = qs @ p # rest" "\<not> yields_reviews w a c p" "\<forall>q\<in>set qs. \<not> \<not> yields_reviews w a c q"
    by blast
  then show ?thesis using stopped by simp
qed

lemma page_loop_fetched:
  "\<exists>qs rest. ps = qs @ rest \<and>
     fetched (snd (page_loop w a c ps st)) = fetched st @ qs \<and>
     (\<forall>q\<in>set (butlast qs). yields_reviews w a c q)"
proof (cases rule: page_loop_cases [of ps w a c])
  case ceiling
  have "\<forall>q\<in>set (butlast ps). yields_reviews w a c q"
    using ceiling by (meson in_set_butlastD)
  with page_loop_ceiling [OF ceiling, of st] show ?thesis
    by (intro exI [of _ ps] exI [of _ "[]"]) simp
next
  case (stopped qs p rest)
  have f: "fetched (snd (page_loop w a c ps st)) = fetched st @ qs @ [p]"
  proof (cases "page_result w a c p")
    case (Inl e)
    from page_loop_aborted [OF stopped(2) Inl, of rest st] stopped(1) show ?thesis by simp
  next
    case (Inr rs)
    with stopped(3) have "page_result w a c p = Inr []"
      by (simp add: yields_reviews_def)
    from page_loop_exhausted [OF stopped(2) this, of rest st] stopped(1) show ?thesis by simp
  qed
  show ?thesis
    using stopped f by (intro exI [of _ "qs @ [p]"] exI [of _ rest]) simp
qed

lemma upto_prefix:
  "[a..b] = xs @ ys \<Longrightarrow> xs = [a..a + int (length xs) - 1]"
proof (induction xs arbitrary: a)
  case Nil
  then show ?case by simp
next
  case (Cons x xs)
  from Cons.prems have le: "a \<le> b" by (cases "a \<le> b") auto
  with Cons.prems have x: "x = a" and r: "[a + 1..b] = xs @ ys"
    by (auto simp: upto_rec1)
  from Cons.IH [OF r] have "xs = [a + 1..a + int (length xs)]" by simp
  then have "a # xs = a # [a + 1..a + int (length xs)]" by simp
  also have "\<dots> = [a..a + int (length xs)]" by (simp add: upto_rec1)
  finally show ?case using x by simp
qed

lemma upto_prefix_le:
  "[a..b] = xs @ ys \<Longrightarrow> \<forall>x\<in>set xs. a \<le> x \<and> x \<le> b"
proof -
  assume "[a..b] = xs @ ys"
  then have "set xs \<subseteq> set [a..b]" by (metis set_append Un_upper1)
  then show ?thesis by auto
qed

lemma py_range_upto: "py_range 1 (m + 1) = [1..m]"
  by (simp add: py_range_def)

lemma concat_map_findall_Nil: "concat (map (findall []) xs) = xs"
  by (induction xs) auto

lemma findall_children: "findall [q] e = filter (\<lambda>c. tag c = q) (children e)"
  by (simp add: concat_map_findall_Nil)

lemma parse_entries_replicate:
  "rating_value e = Some r \<Longrightarrow>
   parse_entries (replicate n e) rows = Inr (rows @ replicate n (review_of e r))"
proof (induction n arbitrary: rows)
  case 0
  then show ?case by simp
next
  case (Suc n)
  from Suc.IH [OF Suc.prems, of "rows @ [review_of e r]"] Suc.prems show ?case
    by (simp add: parse_entries_record replicate_app_Cons_same del: parse_entries.simps)
qed

lemma page_result_world_fifty:
  "page_result world_fifty ''416048305'' ''gb'' 1 = Inr (replicate 50 (review_of entry_full 5))"
  "page_result world_fifty ''416048305'' ''gb'' 2 = Inr []"
proof -
  have v: "rating_value entry_full = Some 5" "\<not> rating_bearing entry_meta"
    by (simp_all add: eval_defs)
  have t: "tag entry_full = atom ''entry''" "tag entry_meta = atom ''entry''"
    by (simp_all add: entry_full_def entry_meta_def)
  have "parse_entries (entry_meta # replicate 50 entry_full) [] =
        Inr (replicate 50 (review_of entry_full 5))"
    using parse_entries_replicate [OF v(1), of 50 "[]"] v(2)
    by (simp add: parse_entries_skip del: parse_entries.simps)
  then show "page_result world_fifty ''416048305'' ''gb'' 1
      = Inr (replicate 50 (review_of entry_full 5))"
    by (simp add: page_result_def fetch_reviews_xml_def world_fifty_def page1_url_def
        str_int_def digit_char_def parse_reviews_def findall_children feed_def t del: parse_entries.simps)
  show "page_result world_fifty ''416048305'' ''gb'' 2 = Inr []"
    by (simp add: page_result_def fetch_reviews_xml_def world_fifty_def page1_url_def
        str_int_def digit_char_def parse_reviews_def findall_children feed_def)
qed

lemma run_pages_stop:
  assumes "1 \<le> k" "k \<le> m" "\<forall>q\<in>set [1..k - 1]. yields_reviews w a c q"
    "page_result w a c k = Inr []"
  shows "run_pages w a c m =
        (Exhausted, \<lparr>fetched = [1..k],
                      all_reviews = concat (map (page_records w a c) [1..k - 1])\<rparr>)"
proof -
  from assms(1,2) have "[1..m] = [1..k - 1] @ k # [k + 1..m]" by (rule upto_split3)
  moreover from assms(1) have "[1..k] = [1..k - 1] @ [k]" by (simp add: upto_rec2)
  ultimately show ?thesis
    using page_loop_exhausted [OF assms(3,4), of "[k + 1..m]" "\<lparr>fetched = [], all_reviews = []\<rparr>"]
    by (simp add: run_pages_def py_range_upto)
qed

lemma page_loop_accumulates:
  "\<exists>qs. fetched (snd (page_loop w a c ps st)) = fetched st @ qs \<and>
        all_reviews (snd (page_loop w a c ps st))
          = all_reviews st @ concat (map (page_records w a c) qs)"
proof (cases rule: page_loop_cases [of ps w a c])
  case ceiling
  from page_loop_ceiling [OF ceiling, of st] show ?thesis by simp
next
  case (stopped qs p rest)
  show ?thesis
  proof (cases "page_result w a c p")
    case (Inl e)
    then have "page_records w a c p = []" by (simp add: page_records_def)
    with page_loop_aborted [OF stopped(2) Inl, of rest st] stopped(1) show ?thesis
      by (intro exI [of _ "qs @ [p]"]) simp
  next
    case (Inr rs)
    with stopped(3) have e: "page_result w a c p = Inr []"
      by (simp add: yields_reviews_def)
    then have "page_records w a c p = []" by (simp add: page_records_def)
    with page_loop_exhausted [OF stopped(2) e, of rest st] stopped(1) show ?thesis
      by (intro exI [of _ "qs @ [p]"]) simp
  qed
qed

lemma run_pages_accumulates:
  "all_reviews (snd (run_pages w a c m)) =
     concat (map (page_records w a c) (fetched (snd (run_pages w a c m))))"
  using page_loop_accumulates [of w a c "py_range 1 (m + 1)" "\<lparr>fetched = [], all_reviews = []\<rparr>"]
  by (auto simp: run_pages_def)

text \<open>
  C2. In every run the pages requested are \<open>1, 2, ...\<close> in order, none above
  \<open>MAX_PAGES\<close>, and every page requested before the last one yielded records. When
  page \<open>k\<close>, within the ceiling, is the first to yield no record, the loop stops
  there with the records of the pages before it. In particular, with a ceiling of at
  least two pages (the scenario fetches two), fifty records on page 1 and none on
  page 2, the loop stops after page 2 and the accumulator holds exactly the fifty
  records of page 1.
\<close>

theorem page_loop_pages:
  "fetched (snd (run_pages w a c m)) = [1..int (length (fetched (snd (run_pages w a c m))))]
   \<and> (\<forall>p\<in>set (fetched (snd (run_pages w a c m))). 1 \<le> p \<and> p \<le> m)
   \<and> (\<forall>p\<in>set (butlast (fetched (snd (run_pages w a c m)))). yields_reviews w a c p)
   \<and> (1 \<le> k \<and> k \<le> m \<and> (\<forall>q\<in>set [1..k - 1]. yields_reviews w a c q)
        \<and> page_result w a c k = Inr [] \<longrightarrow>
      run_pages w a c m =
        (Exhausted, \<lparr>fetched = [1..k],
                      all_reviews = concat (map (page_records w a c) [1..k - 1])\<rparr>))
   \<and> (2 \<le> m \<and> page_result w a c 1 = Inr rs \<and> length rs = 50
        \<and> page_result w a c 2 = Inr [] \<longrightarrow>
      run_pages w a c m = (Exhausted, \<lparr>fetched = [1, 2], all_reviews = rs\<rparr>))"
proof -
  let ?st0 = "\<lparr>fetched = [], all_reviews = []\<rparr>"
  have run: "run_pages w a c m = page_loop w a c [1..m] ?st0"
    by (simp add: run_pages_def py_range_upto)
  from page_loop_fetched [of "[1..m]" w a c ?st0] obtain qs rest where
    sp: "[1..m] = qs @ rest" and f: "fetched (snd (run_pages w a c m)) = qs"
    and y: "\<forall>q\<in>set (butlast qs). yields_reviews w a c q"
    unfolding run by auto
  have stop: "run_pages w a c m =
        (Exhausted, \<lparr>fetched = [1..k],
                      all_reviews = concat (map (page_records w a c) [1..k - 1])\<rparr>)"
    if k: "1 \<le> k" "k \<le> m" and pre: "\<forall>q\<in>set [1..k - 1]. yields_reviews w a c q"
      and e: "page_result w a c k = Inr []" for k
  proof -
    from k have "[1..m] = [1..k - 1] @ k # [k + 1..m]" by (rule upto_split3)
    moreover from k have "[1..k] = [1..k - 1] @ [k]" by (simp add: upto_rec2)
    ultimately show ?thesis
      using page_loop_exhausted [OF pre e, of "[k + 1..m]" ?st0] run by simp
  qed
  have scen: "run_pages w a c m = (Exhausted, \<lparr>fetched = [1, 2], all_reviews = rs\<rparr>)"
    if m: "2 \<le> m" and p1: "page_result w a c 1 = Inr rs" and n: "length rs = 50"
      and p2: "page_result w a c 2 = Inr []"
  proof -
    from n have "rs \<noteq> []" by auto
    with p1 have y1: "\<forall>q\<in>set [1..2 - 1]. yields_reviews w a c q"
      by (simp add: yields_reviews_def)
    have u: "[1..2 - 1] = [1::int]" "[1..2] = [1, 2::int]" by (simp_all add: upto_rec1)
    from stop [of 2, OF _ m y1 p2] p1 show ?thesis
      unfolding u by (simp add: page_records_def)
  qed
  from upto_prefix [OF sp] have "qs = [1..int (length qs)]" by simp
  moreover from upto_prefix_le [OF sp] have "\<forall>p\<in>set qs. 1 \<le> p \<and> p \<le> m" .
  ultimately show ?thesis using f y stop scen by simp
qed

theorem page_loop_pages_witness:
  "(2::int) \<le> 10
   \<and> page_result world_fifty ''416048305'' ''gb'' 1 = Inr (replicate 50 (review_of entry_full 5))
   \<and> length (replicate 50 (review_of entry_full 5)) = 50
   \<and> page_result world_fifty ''416048305'' ''gb'' 2 = Inr []
   \<and> run_pages world_fifty ''416048305'' ''gb'' 10 =
       (Exhausted, \<lparr>fetched = [1, 2], all_reviews = replicate 50 (review_of entry_full 5)\<rparr>)"
proof -
  note r = page_result_world_fifty
  from page_loop_pages [of world_fifty "''416048305''" "''gb''" 10 _
      "replicate 50 (review_of entry_full 5)"] r
  show ?thesis by simp
qed

section \<open>Properties of the export\<close>

lemma keys_as_dict: "map fst (as_dict r) = review_columns"
  by (simp add: as_dict_def review_columns_def)

lemma union_keys_step:
  "foldl (\<lambda>cols d. cols @ filter (\<lambda>k. k \<notin> set cols) (map fst d)) review_columns
     (map as_dict rs) = review_columns"
  by (induction rs) (simp_all add: keys_as_dict)

lemma union_keys_reviews:
  "union_keys (map as_dict rs) = (if rs = [] then [] else review_columns)"
proof (cases rs)
  case Nil
  then show ?thesis by (simp add: union_keys_def)
next
  case (Cons r rs')
  then show ?thesis
    using union_keys_step [of rs'] by (simp add: union_keys_def keys_as_dict)
qed

lemma row_as_dict:
  "map (\<lambda>k. case map_of (as_dict r) k of None \<Rightarrow> NaN | Some v \<Rightarrow> v) review_columns = cells_of r"
  by (simp add: as_dict_def review_columns_def cells_of_def)

lemma columns_DataFrame:
  "columns (DataFrame (map as_dict rs)) = (if rs = [] then [] else review_columns)"
  by (simp add: DataFrame_def union_keys_reviews)

lemma body_DataFrame:
  "body (DataFrame (map as_dict rs)) = zip [0..<length rs] (map cells_of rs)"
  by (cases "rs = []") (simp_all add: DataFrame_def union_keys_reviews row_as_dict comp_def)

lemma cells_of_inj: "cells_of a = cells_of b \<longleftrightarrow> a = b"
  by (auto simp: cells_of_def)

lemma cells_of_image: "cells_of x \<in> cells_of ` A \<longleftrightarrow> x \<in> A"
  by (auto simp: cells_of_inj)

lemma drop_dups_snoc:
  "drop_dups seen (rows @ [r]) =
     drop_dups seen rows @ (if snd r \<in> set seen \<union> snd ` set rows then [] else [r])"
  by (induction rows arbitrary: seen) auto

lemma first_indices_snoc:
  "first_indices (xs @ [x]) = first_indices xs @ (if x \<in> set xs then [] else [length xs])"
proof -
  have "filter (\<lambda>i. (xs @ [x]) ! i \<notin> set (take i (xs @ [x]))) [0..<length xs]
      = filter (\<lambda>i. xs ! i \<notin> set (take i xs)) [0..<length xs]"
    by (rule filter_cong) (auto simp: nth_append)
  then show ?thesis by (simp add: first_indices_def)
qed

lemma first_indices_less: "i \<in> set (first_indices xs) \<Longrightarrow> i < length xs"
  by (simp add: first_indices_def)

lemma first_occurrences_snoc:
  "first_occurrences (xs @ [x]) = first_occurrences xs @ (if x \<in> set xs then [] else [x])"
proof -
  have "map (\<lambda>i. (xs @ [x]) ! i) (first_indices xs) = map (\<lambda>i. xs ! i) (first_indices xs)"
    by (rule map_cong) (auto simp: nth_append dest: first_indices_less)
  then show ?thesis by (simp add: first_occurrences_def first_indices_snoc)
qed

lemma first_occurrences_Nil [simp]: "first_occurrences [] = []"
  by (simp add: first_occurrences_def first_indices_def)

lemma set_first_occurrences: "set (first_occurrences xs) = set xs"
proof (induction xs rule: rev_induct)
  case Nil
  show ?case by simp
next
  case (snoc x xs)
  then show ?case unfolding first_occurrences_snoc by auto
qed


lemma frame_body:
  "body (drop_duplicates (DataFrame (map as_dict acc))) =
     map (\<lambda>i. (i, cells_of (acc ! i))) (first_indices acc)"
proof (induction acc rule: rev_induct)
  case Nil
  then show ?case
    by (simp add: drop_duplicates_def DataFrame_def union_keys_def first_indices_def)
next
  case (snoc x xs)
  have z: "zip [0..<length (xs @ [x])] (map cells_of (xs @ [x]))
         = zip [0..<length xs] (map cells_of xs) @ [(length xs, cells_of x)]"
    by simp
  have s: "snd ` set (zip [0..<length xs] (map cells_of xs)) = cells_of ` set xs"
    by (metis length_map list.set_map map_snd_zip map_nth length_upt diff_zero)
  have m: "map (\<lambda>i. (i, cells_of ((xs @ [x]) ! i))) (first_indices xs)
         = map (\<lambda>i. (i, cells_of (xs ! i))) (first_indices xs)"
    by (rule map_cong) (auto simp: nth_append dest: first_indices_less)
  from snoc show ?case
    unfolding drop_duplicates_def body_DataFrame z
    by (simp add: drop_dups_snoc s cells_of_image first_indices_snoc m body_DataFrame)
qed

lemma frame_columns:
  "columns (drop_duplicates (DataFrame (map as_dict acc))) = (if acc = [] then [] else review_columns)"
  by (simp add: drop_duplicates_def columns_DataFrame)

lemma frame_rows:
  "map snd (body (drop_duplicates (DataFrame (map as_dict acc)))) =
     map cells_of (first_occurrences acc)"
  by (simp add: frame_body first_occurrences_def comp_def)

lemma export_empty: "export cfg w [] fs = Inl KeyError"
  using frame_columns [of "[]"] by (simp add: export_def Let_def getitem_def)

lemma get_loc_published_at: "get_loc review_columns ''published_at'' = Some 1"
  by (simp add: review_columns_def)

lemma export_nonempty:
  assumes "acc \<noteq> []"
  shows "export cfg w acc fs =
     Inr (fs(OUTPUT_FILE cfg \<mapsto>
            \<lparr>header = review_columns,
             sheet_rows = map (coerced_cells w) (first_occurrences acc)\<rparr>))"
proof -
  let ?df = "drop_duplicates (DataFrame (map as_dict acc))"
  let ?col = "map (\<lambda>i. StrCell (published_at (acc ! i))) (first_indices acc)"
  have c: "columns ?df = review_columns" using assms by (simp add: frame_columns)
  have g: "getitem ?df ''published_at'' = Inr ?col"
    by (simp add: getitem_def c get_loc_published_at frame_body comp_def cells_of_def)
  have z: "zip (body ?df) (map (to_datetime (parse_datetime w)) ?col)
      = map (\<lambda>i. ((i, cells_of (acc ! i)),
                   to_datetime (parse_datetime w) (StrCell (published_at (acc ! i)))))
          (first_indices acc)"
    by (simp add: frame_body zip_map_map zip_same_conv_map comp_def)
  have s: "setitem ?df ''published_at'' (map (to_datetime (parse_datetime w)) ?col)
      = \<lparr>columns = review_columns,
         body = map (\<lambda>i. (i, coerced_cells w (acc ! i))) (first_indices acc)\<rparr>"
    unfolding setitem_def c get_loc_published_at z
    by (simp add: comp_def cells_of_def coerced_cells_def)
  show ?thesis
    unfolding export_def Let_def g sum.case s
    by (simp add: to_excel_def first_occurrences_def comp_def)
qed





lemma frame_rows_snoc:
  "map snd (body (drop_duplicates (DataFrame (map as_dict (acc @ [r]))))) =
     map snd (body (drop_duplicates (DataFrame (map as_dict acc))))
       @ (if r \<in> set acc then [] else [cells_of r])"
  unfolding frame_rows first_occurrences_snoc by simp

lemma main_finishes:
  assumes "extract_app_id (APP_URL cfg) = Inr app"
    and "run_pages w app (COUNTRY cfg) (MAX_PAGES cfg) = (out, st)"
    and "out = Exhausted \<or> out = Ceiling"
  shows "main cfg w fs = export cfg w (all_reviews st) fs"
  using assms by (auto simp: main_def)

lemma app_id_script_config: "extract_app_id (APP_URL script_config) = Inr ''416048305''"
  by (simp add: script_config_def extract_app_id_def strip_def lstrip_def rstrip_def
      is_space_def isdigit_def is_digit_char_def match_id_def is_decimal_def)

lemma run_pages_world_mixed:
  "run_pages world_mixed ''416048305'' ''gb'' 10 =
     (Exhausted,
      \<lparr>fetched = [1, 2],
       all_reviews = [review_of entry_full 5, review_of entry_garbage 2, review_of entry_full 5]\<rparr>)"
proof -
  have v: "rating_value entry_full = Some 5" "rating_value entry_garbage = Some 2"
    "\<not> rating_bearing entry_meta"
    by (simp_all add: eval_defs entry_garbage_def)
  have t: "tag entry_full = atom ''entry''" "tag entry_meta = atom ''entry''"
    "tag entry_garbage = atom ''entry''"
    by (simp_all add: entry_full_def entry_meta_def entry_garbage_def)
  have p: "parse_entries [entry_meta, entry_full, entry_garbage, entry_full] [] =
      Inr [review_of entry_full 5, review_of entry_garbage 2, review_of entry_full 5]"
    using v
    by (simp add: parse_entries_skip parse_entries_record del: parse_entries.simps(2))
  have p1: "page_result world_mixed ''416048305'' ''gb'' 1 =
      Inr [review_of entry_full 5, review_of entry_garbage 2, review_of entry_full 5]"
    using p
    by (simp add: page_result_def fetch_reviews_xml_def world_mixed_def page1_url_def
        str_int_def digit_char_def parse_reviews_def findall_children feed_def t
        del: parse_entries.simps)
  have p2: "page_result world_mixed ''416048305'' ''gb'' 2 = Inr []"
    by (simp add: page_result_def fetch_reviews_xml_def world_mixed_def page1_url_def
        str_int_def digit_char_def parse_reviews_def findall_children feed_def)
  have u: "[1..2 - 1] = [1::int]" "[1..2] = [1, 2::int]" by (simp_all add: upto_rec1)
  have y: "\<forall>q\<in>set [1..2 - 1]. yields_reviews world_mixed ''416048305'' ''gb'' q"
    unfolding u using p1 by (simp add: yields_reviews_def)
  from run_pages_stop [OF _ _ y p2, of 10] p1 show ?thesis
    unfolding u by (simp add: page_records_def)
qed



text \<open>
  C10. The rows of the deduplicated frame are the accumulated records at the positions
  of their first occurrence, in increasing order of position, each with that position
  as its index label. Appending a record that already occurs leaves the rows as they
  are, and appending a new one adds its row at the end. The sheet written for a
  non-empty accumulator holds the rows in that order, and the accumulator itself is
  the concatenation, in the order of the pages requested, of what each page yielded.
\<close>

theorem first_occurrence_order:
  "body (drop_duplicates (DataFrame (map as_dict acc))) =
     map (\<lambda>i. (i, cells_of (acc ! i))) (first_indices acc)
   \<and> map snd (body (drop_duplicates (DataFrame (map as_dict (acc @ [r]))))) =
       map snd (body (drop_duplicates (DataFrame (map as_dict acc))))
         @ (if r \<in> set acc then [] else [cells_of r])
   \<and> (acc \<noteq> [] \<longrightarrow>
        export cfg w acc fs =
          Inr (fs(OUTPUT_FILE cfg \<mapsto>
                 \<lparr>header = review_columns,
                  sheet_rows = map (coerced_cells w) (first_occurrences acc)\<rparr>)))
   \<and> all_reviews (snd (run_pages w a c m)) =
       concat (map (page_records w a c) (fetched (snd (run_pages w a c m))))"
  using frame_body [of acc] frame_rows_snoc [of acc r] export_nonempty [of acc cfg w fs]
    run_pages_accumulates [of w a c m]
  by blast

theorem first_occurrence_order_witness:
  "[review_a, review_b, review_a] \<noteq> []
   \<and> body (drop_duplicates (DataFrame (map as_dict [review_a, review_b, review_a]))) =
       [(0, cells_of review_a), (1, cells_of review_b)]
   \<and> export script_config world_mixed [review_a, review_b, review_a] Map.empty =
       Inr [''meitu_gb_reviews.xlsx'' \<mapsto>
             \<lparr>header = review_columns,
              sheet_rows = [coerced_cells world_mixed review_a,
                            coerced_cells world_mixed review_b]\<rparr>]"
proof -
  let ?acc = "[review_a, review_b, review_a]"
  have ab: "review_a \<noteq> review_b"
    by (simp add: review_a_def review_b_def)
  have i: "first_indices ?acc = [0, 1]"
    using ab by (simp add: first_indices_def upt_rec)
  then have o: "first_occurrences ?acc = [review_a, review_b]"
    by (simp add: first_occurrences_def)
  from first_occurrence_order [of ?acc _ script_config world_mixed Map.empty] i o
  show ?thesis by (simp add: script_config_def)
qed

text \<open>
  C8. In a run whose loop ends by an empty page or at the ceiling, a record of the
  accumulator whose timestamp the date parser rejects does not stop the run:
  \<open>main\<close> returns with the sheet written, the row of that record is in the sheet, and
  its timestamp cell is \<open>NaT\<close>.
\<close>

theorem unparseable_timestamp_is_NaT:
  assumes "extract_app_id (APP_URL cfg) = Inr app"
    and "run_pages w app (COUNTRY cfg) (MAX_PAGES cfg) = (out, st)"
    and "out = Exhausted \<or> out = Ceiling"
    and "r \<in> set (all_reviews st)"
    and "parse_datetime w (published_at r) = None"
  shows "main cfg w fs =
      Inr (fs(OUTPUT_FILE cfg \<mapsto>
             \<lparr>header = review_columns,
              sheet_rows = map (coerced_cells w) (first_occurrences (all_reviews st))\<rparr>))
    \<and> coerced_cells w r \<in> set (map (coerced_cells w) (first_occurrences (all_reviews st)))
    \<and> coerced_cells w r =
        [StrCell (username r), NaT, IntCell (rating r), StrCell (title r), StrCell (content r)]"
proof (intro conjI)
  from assms(4) have "all_reviews st \<noteq> []" by auto
  from export_nonempty [OF this] main_finishes [OF assms(1-3)]
  show "main cfg w fs =
      Inr (fs(OUTPUT_FILE cfg \<mapsto>
             \<lparr>header = review_columns,
              sheet_rows = map (coerced_cells w) (first_occurrences (all_reviews st))\<rparr>))"
    by simp
  from assms(4)
  show "coerced_cells w r \<in> set (map (coerced_cells w) (first_occurrences (all_reviews st)))"
    by (simp add: set_first_occurrences)
  from assms(5)
  show "coerced_cells w r =
        [StrCell (username r), NaT, IntCell (rating r), StrCell (title r), StrCell (content r)]"
    by (simp add: coerced_cells_def to_datetime_def)
qed

theorem unparseable_timestamp_is_NaT_witness:
  "extract_app_id (APP_URL script_config) = Inr ''416048305''
   \<and> run_pages world_mixed ''416048305'' (COUNTRY script_config) (MAX_PAGES script_config) =
       (Exhausted,
        \<lparr>fetched = [1, 2],
         all_reviews = [review_of entry_full 5, review_of entry_garbage 2, review_of entry_full 5]\<rparr>)
   \<and> published_at (review_of entry_garbage 2) = ''not a date''
   \<and> parse_datetime world_mixed ''not a date'' = None
   \<and> main script_config world_mixed Map.empty =
       Inr [''meitu_gb_reviews.xlsx'' \<mapsto>
             \<lparr>header = [''username'', ''published_at'', ''rating'', ''title'', ''content''],
              sheet_rows =
                [[StrCell ''bob'', TsCell 1714582800000000000, IntCell 5,
                  StrCell ''Great app'', StrCell ''Works well.''],
                 [StrCell ''eve'', NaT, IntCell 2, StrCell ''Hm'', StrCell []]]\<rparr>]"
proof -
  let ?acc = "[review_of entry_full 5, review_of entry_garbage 2, review_of entry_full 5]"
  let ?st = "\<lparr>fetched = [1, 2], all_reviews = ?acc\<rparr>"
  have c: "COUNTRY script_config = ''gb''" "MAX_PAGES script_config = 10"
    "OUTPUT_FILE script_config = ''meitu_gb_reviews.xlsx''"
    by (simp_all add: script_config_def)
  have run: "run_pages world_mixed ''416048305'' (COUNTRY script_config) (MAX_PAGES script_config)
      = (Exhausted, ?st)"
    unfolding c by (rule run_pages_world_mixed)
  have r1: "review_of entry_full 5 =
      \<lparr>username = ''bob'', published_at = ''2024-05-01T10:00:00-07:00'', rating = 5,
       title = ''Great app'', content = ''Works well.''\<rparr>"
    by (simp add: eval_defs)
  have r2: "review_of entry_garbage 2 =
      \<lparr>username = ''eve'', published_at = ''not a date'', rating = 2,
       title = ''Hm'', content = []\<rparr>"
    by (simp add: eval_defs entry_garbage_def)
  have m: "review_of entry_garbage 2 \<in> set (all_reviews ?st)" by simp
  have n: "parse_datetime world_mixed (published_at (review_of entry_garbage 2)) = None"
    unfolding r2 by (simp add: world_mixed_def)
  have fo: "first_occurrences ?acc = [review_of entry_full 5, review_of entry_garbage 2]"
    unfolding r1 r2 by (simp add: first_occurrences_def first_indices_def upt_rec)
  from unparseable_timestamp_is_NaT [OF app_id_script_config run _ m n, of Map.empty]
  have "main script_config world_mixed Map.empty =
      Inr [OUTPUT_FILE script_config \<mapsto>
            \<lparr>header = review_columns,
             sheet_rows = map (coerced_cells world_mixed)
                 [review_of entry_full 5, review_of entry_garbage 2]\<rparr>]"
    by (simp add: fo)
  then have "main script_config world_mixed Map.empty =
       Inr [''meitu_gb_reviews.xlsx'' \<mapsto>
             \<lparr>header = [''username'', ''published_at'', ''rating'', ''title'', ''content''],
              sheet_rows =
                [[StrCell ''bob'', TsCell 1714582800000000000, IntCell 5,
                  StrCell ''Great app'', StrCell ''Works well.''],
                 [StrCell ''eve'', NaT, IntCell 2, StrCell ''Hm'', StrCell []]]\<rparr>]"
    unfolding r1 r2 c
    by (simp add: coerced_cells_def to_datetime_def world_mixed_def review_columns_def)
  with app_id_script_config run r2 show ?thesis
    by (simp add: world_mixed_def)
qed

text \<open>
  C1 fails on the code. When the first page parses to no record, the accumulator is
  empty, the frame built from it has no column, and reading the column
  \<open>published_at\<close> raises \<open>KeyError\<close> before anything is written.
\<close>

theorem main_no_reviews_KeyError:
  assumes "extract_app_id (APP_URL cfg) = Inr app"
    and "page_result w app (COUNTRY cfg) 1 = Inr []"
  shows "main cfg w fs = Inl KeyError"
proof -
  let ?run = "run_pages w app (COUNTRY cfg) (MAX_PAGES cfg)"
  have "(fst ?run = Exhausted \<or> fst ?run = Ceiling) \<and> all_reviews (snd ?run) = []"
  proof (cases "1 \<le> MAX_PAGES cfg")
    case True
    from run_pages_stop [OF _ True _ assms(2)] show ?thesis by simp
  next
    case False
    then have "py_range 1 (MAX_PAGES cfg + 1) = []" by (simp add: py_range_def)
    then show ?thesis by (simp add: run_pages_def)
  qed
  then show ?thesis
    using main_finishes [OF assms(1), of w "fst ?run" "snd ?run" fs]
    by (simp add: export_empty)
qed

theorem main_no_reviews_KeyError_witness:
  "extract_app_id (APP_URL script_config) = Inr ''416048305''
   \<and> page_result world_no_reviews ''416048305'' (COUNTRY script_config) 1 = Inr []
   \<and> main script_config world_no_reviews Map.empty = Inl KeyError"
proof -
  have nb: "\<not> rating_bearing entry_meta" by (simp add: eval_defs)
  have t: "tag entry_meta = atom ''entry''" by (simp add: entry_meta_def)
  have "parse_entries [entry_meta] [] = Inr []"
    using nb by (simp add: parse_entries_skip del: parse_entries.simps(2))
  then have p: "page_result world_no_reviews ''416048305'' (COUNTRY script_config) 1 = Inr []"
    by (simp add: page_result_def fetch_reviews_xml_def world_no_reviews_def
        parse_reviews_def findall_children feed_def t del: parse_entries.simps)
  from main_no_reviews_KeyError [OF app_id_script_config p, of Map.empty]
    app_id_script_config p
  show ?thesis by simp
qed

end
